theory Spec2Isabelle
  imports
    Complex_Main
    "HOL-Library.Multiset"
    "HOL-Library.Char_ord"
    "HOL-Library.List_Lexorder"
begin

section \<open>The issue table of citizen\_app.py\<close>

text \<open>
  A row of the table \<^verbatim>\<open>issues\<close> (and a value of the dataclass \<^verbatim>\<open>Issue\<close>): the seven
  columns in the order of the \<^verbatim>\<open>CREATE TABLE\<close> statement. The column \<^verbatim>\<open>id\<close> is named
  \<open>id_issue\<close> here, \<open>id\<close> being the identity function of HOL. Text columns are byte
  strings, compared bytewise as SQLite's BINARY collation does; \<^verbatim>\<open>votes\<close> holds the
  integer that Python reads back. SQLite keeps an INTEGER in 64 bits, so the model
  stands for tables whose counters are below \<open>2^63 - 1\<close>.
\<close>

record issue =
  id_issue :: string
  title :: string
  category :: string
  location :: string
  status :: string
  votes :: int
  created_at :: string

text \<open>
  The table is the list of its rows in the order of insertion (the order of a scan
  without \<^verbatim>\<open>ORDER BY\<close>). A fresh database holds no row.
\<close>

type_synonym store = "issue list"

definition CATEGORIES :: "string set" where
  "CATEGORIES = {''infrastructure'', ''safety'', ''environment'', ''community'', ''transit''}"

text \<open>
  The two exceptions of \<^verbatim>\<open>report_issue\<close>: the \<^verbatim>\<open>ValueError\<close> of the category check,
  whose message is a fixed sentence followed by the printed set \<^verbatim>\<open>CATEGORIES\<close> (the
  order of the printed elements depends on the hash seed, so the model keeps the set),
  and the \<^verbatim>\<open>sqlite3.IntegrityError\<close> that the \<^verbatim>\<open>INSERT\<close> raises when the primary key
  \<^verbatim>\<open>id\<close> is already in the table.
\<close>

datatype error = ValueError "string set" | IntegrityError

subsection \<open>report\_issue\<close>

text \<open>
  \<^verbatim>\<open>report_issue\<close> reads the clock twice: \<^verbatim>\<open>datetime.now().timestamp()\<close> for the id,
  then \<^verbatim>\<open>datetime.now().isoformat()\<close> in the default factory of \<^verbatim>\<open>created_at\<close>. Both
  readings are inputs of the model, already printed: \<open>ts\<close> is the text of the first,
  \<open>now\<close> the text of the second.
\<close>

definition new_issue :: "string \<Rightarrow> string \<Rightarrow> string \<Rightarrow> string \<Rightarrow> string \<Rightarrow> issue" where
  "new_issue i t c l now =
     \<lparr>id_issue = i, title = t, category = c, location = l,
      status = ''open'', votes = 0, created_at = now\<rparr>"

text \<open>The \<^verbatim>\<open>INSERT\<close>: refused when a row has the same primary key, else one more row.\<close>

definition insert_row :: "issue \<Rightarrow> store \<Rightarrow> error + store" where
  "insert_row r s =
     (if id_issue r \<in> set (map id_issue s) then Inl IntegrityError else Inr (s @ [r]))"

definition report_issue ::
  "string \<Rightarrow> string \<Rightarrow> string \<Rightarrow> string \<Rightarrow> string \<Rightarrow> store \<Rightarrow> (error + string) \<times> store" where
  "report_issue t c l ts now s =
     (if c \<notin> CATEGORIES then (Inl (ValueError CATEGORIES), s)
      else
        let issue_id = ''issue_'' @ ts;
            r = new_issue issue_id t c l now
        in case insert_row r s of
             Inl e \<Rightarrow> (Inl e, s)
           | Inr s' \<Rightarrow> (Inr issue_id, s'))"

subsection \<open>vote\_issue\<close>

text \<open>
  The \<^verbatim>\<open>UPDATE\<close> adds one to every row whose id matches; the \<^verbatim>\<open>SELECT\<close> with
  \<^verbatim>\<open>fetchone\<close> reads the first matching row of the updated table, or \<^verbatim>\<open>None\<close>. A
  fetched row is a one-element tuple, which is true in Python whatever it holds.
\<close>

definition update_votes :: "string \<Rightarrow> store \<Rightarrow> store" where
  "update_votes i s = map (\<lambda>r. if id_issue r = i then r\<lparr>votes := votes r + 1\<rparr> else r) s"

definition select_votes :: "string \<Rightarrow> store \<Rightarrow> int option" where
  "select_votes i s = map_option votes (find (\<lambda>r. id_issue r = i) s)"

definition vote_issue :: "string \<Rightarrow> store \<Rightarrow> int \<times> store" where
  "vote_issue i s =
     (let s' = update_votes i s;
          result = select_votes i s'
      in (case result of Some v \<Rightarrow> v | None \<Rightarrow> 0, s'))"

subsection \<open>get\_issues\<close>

text \<open>
  \<^verbatim>\<open>ORDER BY ... DESC\<close> as an insertion sort against a "comes first" relation; rows
  that the relation does not tell apart stay in table order, which is what SQLite is
  free to choose.
\<close>

fun insert_by :: "('a \<Rightarrow> 'a \<Rightarrow> bool) \<Rightarrow> 'a \<Rightarrow> 'a list \<Rightarrow> 'a list" where
  "insert_by ge x [] = [x]"
| "insert_by ge x (y # ys) = (if ge x y then x # y # ys else y # insert_by ge x ys)"

definition order_by :: "('a \<Rightarrow> 'a \<Rightarrow> bool) \<Rightarrow> 'a list \<Rightarrow> 'a list" where
  "order_by ge xs = foldr (insert_by ge) xs []"

text \<open>\<^verbatim>\<open>ORDER BY votes DESC, created_at DESC\<close> and \<^verbatim>\<open>ORDER BY created_at DESC\<close>.\<close>

definition votes_desc :: "issue \<Rightarrow> issue \<Rightarrow> bool" where
  "votes_desc a b \<longleftrightarrow>
     votes b < votes a \<or> (votes a = votes b \<and> created_at b \<le> created_at a)"

definition recent_desc :: "issue \<Rightarrow> issue \<Rightarrow> bool" where
  "recent_desc a b \<longleftrightarrow> created_at b \<le> created_at a"

text \<open>
  \<^verbatim>\<open>if category:\<close> is false for \<^verbatim>\<open>None\<close> and for the empty string; only then is the
  \<^verbatim>\<open>WHERE\<close> clause left out. A \<^verbatim>\<open>sort_by\<close> other than the two known words adds no
  \<^verbatim>\<open>ORDER BY\<close>.
\<close>

definition where_category :: "string option \<Rightarrow> store \<Rightarrow> issue list" where
  "where_category c s =
     (case c of
        None \<Rightarrow> s
      | Some x \<Rightarrow> if x = [] then s else filter (\<lambda>r. category r = x) s)"

definition get_issues :: "string option \<Rightarrow> string \<Rightarrow> store \<Rightarrow> issue list" where
  "get_issues c sort_by s =
     (let rows = where_category c s
      in if sort_by = ''votes'' then order_by votes_desc rows
         else if sort_by = ''recent'' then order_by recent_desc rows
         else rows)"

subsection \<open>get\_stats\<close>

text \<open>
  \<^verbatim>\<open>AVG(votes)\<close> is a double, and \<^verbatim>\<open>round(x, 2)\<close> rounds a double. The model does not
  fix an arithmetic of doubles: the type \<open>'f\<close> of doubles and the three operations
  \<^verbatim>\<open>get_stats\<close> applies to them are parameters. \<open>sql_avg\<close> is SQLite's mean of a
  non-empty column, \<open>is_zero\<close> is Python's test \<^verbatim>\<open>x == 0.0\<close> (the doubles that \<^verbatim>\<open>or\<close>
  takes for false), \<open>round2\<close> is \<^verbatim>\<open>round(x, 2)\<close> on a double.
\<close>

record 'f float_ops =
  sql_avg :: "int list \<Rightarrow> 'f"
  is_zero :: "'f \<Rightarrow> bool"
  round2 :: "'f \<Rightarrow> 'f"

text \<open>A Python number: \<^verbatim>\<open>average_votes\<close> is the int \<^verbatim>\<open>0\<close> or a double.\<close>

datatype 'f pynum = PyInt int | PyFloat 'f

text \<open>\<^verbatim>\<open>SELECT AVG(votes) FROM issues\<close>: \<^verbatim>\<open>NULL\<close>, read as \<^verbatim>\<open>None\<close>, on a table without rows.\<close>

definition avg_votes :: "'f float_ops \<Rightarrow> store \<Rightarrow> 'f option" where
  "avg_votes fo s = (if s = [] then None else Some (sql_avg fo (map votes s)))"

text \<open>\<^verbatim>\<open>x or 0\<close>: the int \<^verbatim>\<open>0\<close> when \<^verbatim>\<open>x\<close> is \<^verbatim>\<open>None\<close> or a zero double.\<close>

definition or_zero :: "'f float_ops \<Rightarrow> 'f option \<Rightarrow> 'f pynum" where
  "or_zero fo x =
     (case x of
        None \<Rightarrow> PyInt 0
      | Some a \<Rightarrow> if is_zero fo a then PyInt 0 else PyFloat a)"

text \<open>\<^verbatim>\<open>round(x, 2)\<close>: an int is returned as it is.\<close>

definition py_round2 :: "'f float_ops \<Rightarrow> 'f pynum \<Rightarrow> 'f pynum" where
  "py_round2 fo x = (case x of PyInt n \<Rightarrow> PyInt n | PyFloat a \<Rightarrow> PyFloat (round2 fo a))"

text \<open>\<^verbatim>\<open>SELECT COUNT(*) FROM issues WHERE category = ?\<close>.\<close>

definition count_category :: "string \<Rightarrow> store \<Rightarrow> int" where
  "count_category cat s = int (length (filter (\<lambda>r. category r = cat) s))"

record 'f stats =
  total_issues :: int
  average_votes :: "'f pynum"
  by_category :: "string \<rightharpoonup> int"

text \<open>
  The loop over \<^verbatim>\<open>CATEGORIES\<close> stores one count under each element of the set; the
  dictionary it leaves does not depend on the order in which the set is walked.
\<close>

definition get_stats :: "'f float_ops \<Rightarrow> store \<Rightarrow> 'f stats" where
  "get_stats fo s =
     (let total = int (length s);
          avg = or_zero fo (avg_votes fo s);
          by_cat = (\<lambda>cat. if cat \<in> CATEGORIES then Some (count_category cat s) else None)
      in \<lparr>total_issues = total, average_votes = py_round2 fo avg, by_category = by_cat\<rparr>)"

subsection \<open>export\_json\<close>




subsection \<open>Sequences of operations\<close>

text \<open>
  The calls a client can make, with the clock readings of a report among the
  arguments. The three reading operations only run \<^verbatim>\<open>SELECT\<close> statements, so they
  leave the table as it is; a call that raises leaves it as it is as well.
\<close>

datatype op =
    Report string string string string string
  | Vote string
  | GetIssues "string option" string
  | GetStats
  | Export

fun step :: "store \<Rightarrow> op \<Rightarrow> store" where
  "step s (Report t c l ts now) = snd (report_issue t c l ts now s)"
| "step s (Vote i) = snd (vote_issue i s)"
| "step s (GetIssues c sort_by) = s"
| "step s GetStats = s"
| "step s Export = s"

definition run :: "op list \<Rightarrow> store" where
  "run ops = foldl step [] ops"

subsection \<open>Sample data\<close>

text \<open>
  The scenario of the specification: three reports, in the categories
  infrastructure, safety and infrastructure, then two votes for the third issue.
\<close>

definition sample_ops :: "op list" where
  "sample_ops =
     [Report ''Pothole'' ''infrastructure'' ''40.1,-74.2'' ''1700000000.25'' ''2023-11-14T22:13:20.250100'',
      Report ''Dark alley'' ''safety'' ''40.2,-74.3'' ''1700000060.5'' ''2023-11-14T22:14:20.500100'',
      Report ''Broken bridge'' ''infrastructure'' ''40.3,-74.4'' ''1700000120.75'' ''2023-11-14T22:15:20.750100'',
      Vote ''issue_1700000120.75'',
      Vote ''issue_1700000120.75'']"

definition pothole :: issue where
  "pothole =
     \<lparr>id_issue = ''issue_1700000000.25'', title = ''Pothole'', category = ''infrastructure'',
      location = ''40.1,-74.2'', status = ''open'', votes = 0,
      created_at = ''2023-11-14T22:13:20.250100''\<rparr>"

definition dark_alley :: issue where
  "dark_alley =
     \<lparr>id_issue = ''issue_1700000060.5'', title = ''Dark alley'', category = ''safety'',
      location = ''40.2,-74.3'', status = ''open'', votes = 0,
      created_at = ''2023-11-14T22:14:20.500100''\<rparr>"

definition broken_bridge :: issue where
  "broken_bridge =
     \<lparr>id_issue = ''issue_1700000120.75'', title = ''Broken bridge'', category = ''infrastructure'',
      location = ''40.3,-74.4'', status = ''open'', votes = 2,
      created_at = ''2023-11-14T22:15:20.750100''\<rparr>"

definition sample_store :: store where
  "sample_store = [pothole, dark_alley, broken_bridge]"




section \<open>Auxiliary facts\<close>

subsection \<open>Voting\<close>

lemma find_update_votes:
  "find (\<lambda>r. id_issue r = i) (update_votes i s) =
     map_option (\<lambda>r. r\<lparr>votes := votes r + 1\<rparr>) (find (\<lambda>r. id_issue r = i) s)"
  by (induction s) (simp_all add: update_votes_def)

lemma select_votes_present:
  "i \<in> set (map id_issue s) \<Longrightarrow> \<exists>v. select_votes i s = Some v"
  by (induction s) (auto simp: select_votes_def)

lemma select_votes_update:
  "select_votes i (update_votes i s) = map_option (\<lambda>v. v + 1) (select_votes i s)"
  by (simp add: select_votes_def find_update_votes option.map_comp comp_def)

lemma update_votes_absent:
  "i \<notin> set (map id_issue s) \<Longrightarrow> update_votes i s = s"
  by (induction s) (auto simp: update_votes_def)

lemma select_votes_absent:
  "i \<notin> set (map id_issue s) \<Longrightarrow> select_votes i s = None"
  by (induction s) (auto simp: select_votes_def)

subsection \<open>Ordering\<close>

lemma mset_insert_by: "mset (insert_by ge x xs) = add_mset x (mset xs)"
  by (induction xs) simp_all

lemma mset_order_by: "mset (order_by ge xs) = mset xs"
  by (induction xs) (simp_all add: order_by_def mset_insert_by)

lemma set_insert_by: "set (insert_by ge x xs) = insert x (set xs)"
  by (induction xs) auto

lemma sorted_insert_by:
  assumes total: "\<And>a b. ge a b \<or> ge b a"
    and trans: "\<And>a b c. ge a b \<Longrightarrow> ge b c \<Longrightarrow> ge a c"
    and "sorted_wrt ge xs"
  shows "sorted_wrt ge (insert_by ge x xs)"
  using assms(3)
proof (induction xs)
  case Nil
  then show ?case by simp
next
  case (Cons y ys)
  show ?case
  proof (cases "ge x y")
    case True
    then have "\<forall>z\<in>set ys. ge x z"
      using Cons.prems trans by auto
    with True Cons.prems show ?thesis by simp
  next
    case False
    then have "ge y x" using total by blast
    with False Cons show ?thesis
      by (auto simp: set_insert_by)
  qed
qed

lemma sorted_order_by:
  assumes "\<And>a b. ge a b \<or> ge b a"
    and "\<And>a b c. ge a b \<Longrightarrow> ge b c \<Longrightarrow> ge a c"
  shows "sorted_wrt ge (order_by ge xs)"
proof (induction xs)
  case Nil
  show ?case by (simp add: order_by_def)
next
  case (Cons x xs)
  have "sorted_wrt ge (insert_by ge x (order_by ge xs))"
    using assms Cons by (rule sorted_insert_by)
  then show ?case by (simp add: order_by_def)
qed

lemma votes_desc_total: "votes_desc a b \<or> votes_desc b a"
  unfolding votes_desc_def by (metis linorder_less_linear linorder_linear)

lemma votes_desc_trans: "votes_desc a b \<Longrightarrow> votes_desc b c \<Longrightarrow> votes_desc a c"
  unfolding votes_desc_def by (metis order.strict_trans order_trans)

lemma sorted_votes_desc: "sorted_wrt votes_desc (order_by votes_desc xs)"
  by (rule sorted_order_by) (rule votes_desc_total, erule votes_desc_trans)

lemma sorted_recent_desc: "sorted_wrt recent_desc (order_by recent_desc xs)"
  by (rule sorted_order_by) (auto simp: recent_desc_def)

lemma mset_get_issues: "mset (get_issues c sort_by s) = mset (where_category c s)"
  by (simp add: get_issues_def Let_def mset_order_by)

subsection \<open>Steps\<close>

lemma report_issue_clash:
  assumes "c \<in> CATEGORIES" and "''issue_'' @ ts \<in> set (map id_issue s)"
  shows "report_issue t c l ts now s = (Inl IntegrityError, s)"
  using assms by (simp add: report_issue_def insert_row_def new_issue_def Let_def)

lemma step_length: "length s \<le> length (step s x)"
proof (cases x)
  case (Report t c l ts now)
  then show ?thesis
    by (simp add: report_issue_def insert_row_def Let_def)
next
  case (Vote i)
  then show ?thesis by (simp add: vote_issue_def update_votes_def Let_def)
qed simp_all

lemma step_row:
  assumes "k < length s"
  shows "step s x ! k = (s ! k)\<lparr>votes := votes (step s x ! k)\<rparr>
         \<and> votes (s ! k) \<le> votes (step s x ! k)"
proof (cases x)
  case (Report t c l ts now)
  then show ?thesis using assms
    by (simp add: report_issue_def insert_row_def Let_def nth_append)
next
  case (Vote i)
  then show ?thesis using assms
    by (simp add: vote_issue_def update_votes_def Let_def)
qed simp_all

lemma step_nonneg:
  assumes "\<forall>r\<in>set s. 0 \<le> votes r"
  shows "\<forall>r\<in>set (step s x). 0 \<le> votes r"
proof (cases x)
  case (Report t c l ts now)
  then show ?thesis using assms
    by (auto simp: report_issue_def insert_row_def new_issue_def Let_def)
next
  case (Vote i)
  then show ?thesis using assms
    by (auto simp: vote_issue_def update_votes_def Let_def)
qed (simp_all add: assms)

lemma foldl_step_nonneg:
  "\<forall>r\<in>set s. 0 \<le> votes r \<Longrightarrow> \<forall>r\<in>set (foldl step s xs). 0 \<le> votes r"
proof (induction xs arbitrary: s)
  case Nil
  then show ?case by simp
next
  case (Cons x xs)
  from Cons.prems have "\<forall>r\<in>set (step s x). 0 \<le> votes r" by (rule step_nonneg)
  then show ?case using Cons.IH by simp
qed

subsection \<open>The sample\<close>

lemmas sample_defs =
  sample_store_def pothole_def dark_alley_def broken_bridge_def

lemma run_sample: "run sample_ops = sample_store"
  by (simp add: Let_def run_def sample_ops_def sample_defs report_issue_def insert_row_def
      new_issue_def CATEGORIES_def vote_issue_def update_votes_def select_votes_def)

lemma sample_by_votes:
  "get_issues None ''votes'' sample_store = [broken_bridge, dark_alley, pothole]"
  by (simp add: get_issues_def where_category_def Let_def order_by_def votes_desc_def
      sample_defs list_le_def)



lemma get_stats_empty:
  "total_issues (get_stats fo []) = 0
   \<and> average_votes (get_stats fo []) = PyInt 0
   \<and> by_category (get_stats fo []) = (\<lambda>c. if c \<in> CATEGORIES then Some 0 else None)"
  by (simp add: get_stats_def Let_def avg_votes_def or_zero_def py_round2_def count_category_def
      fun_eq_iff)

section \<open>The claims\<close>

text \<open>
  Claim C1. For every issue id present in the store, \<^verbatim>\<open>vote_issue\<close> adds exactly one
  to the stored votes of the record with that id, and the number it returns is the
  stored count after the increment, not the count before it. Row by row, the table
  after the call is the table before it with one more vote in the rows of that id.
\<close>

theorem vote_issue_present:
  assumes "i \<in> set (map id_issue s)"
  shows "\<exists>v. select_votes i s = Some v
           \<and> select_votes i (snd (vote_issue i s)) = Some (v + 1)
           \<and> fst (vote_issue i s) = v + 1
           \<and> length (snd (vote_issue i s)) = length s
           \<and> (\<forall>k<length s.
                 snd (vote_issue i s) ! k =
                   (if id_issue (s ! k) = i then (s ! k)\<lparr>votes := votes (s ! k) + 1\<rparr> else s ! k))"
proof -
  from assms obtain v where v: "select_votes i s = Some v"
    using select_votes_present by blast
  have "select_votes i (update_votes i s) = Some (v + 1)"
    by (simp add: select_votes_update v)
  moreover have "length (update_votes i s) = length s"
    by (simp add: update_votes_def)
  moreover have "\<forall>k<length s. update_votes i s ! k =
      (if id_issue (s ! k) = i then (s ! k)\<lparr>votes := votes (s ! k) + 1\<rparr> else s ! k)"
    by (simp add: update_votes_def)
  ultimately show ?thesis
    using v by (simp add: vote_issue_def)
qed

theorem vote_issue_present_witness:
  "''issue_1700000120.75'' \<in> set (map id_issue sample_store)
   \<and> select_votes ''issue_1700000120.75'' sample_store = Some 2
   \<and> select_votes ''issue_1700000120.75'' (snd (vote_issue ''issue_1700000120.75'' sample_store)) = Some 3
   \<and> fst (vote_issue ''issue_1700000120.75'' sample_store) = 3
   \<and> 2 < length sample_store
   \<and> snd (vote_issue ''issue_1700000120.75'' sample_store) ! 2 = broken_bridge\<lparr>votes := 3\<rparr>
   \<and> snd (vote_issue ''issue_1700000120.75'' sample_store) ! 1 = dark_alley"
proof -
  have h: "''issue_1700000120.75'' \<in> set (map id_issue sample_store)"
    by (simp add: sample_defs)
  have before: "select_votes ''issue_1700000120.75'' sample_store = Some 2"
    by (simp add: select_votes_def sample_defs)
  have k: "2 < length sample_store" "1 < length sample_store"
    by (simp_all add: sample_store_def)
  have rows: "sample_store ! 2 = broken_bridge" "sample_store ! 1 = dark_alley"
    "id_issue broken_bridge = ''issue_1700000120.75''" "id_issue dark_alley \<noteq> ''issue_1700000120.75''"
    "votes broken_bridge = 2"
    by (simp_all add: sample_defs)
  from vote_issue_present [OF h] before
  have "select_votes ''issue_1700000120.75'' (snd (vote_issue ''issue_1700000120.75'' sample_store)) = Some 3"
    and "fst (vote_issue ''issue_1700000120.75'' sample_store) = 3"
    and "\<forall>k<length sample_store.
                 snd (vote_issue ''issue_1700000120.75'' sample_store) ! k =
                   (if id_issue (sample_store ! k) = ''issue_1700000120.75''
                    then (sample_store ! k)\<lparr>votes := votes (sample_store ! k) + 1\<rparr> else sample_store ! k)"
    by auto
  then show ?thesis
    using h before k rows by simp
qed

text \<open>
  Claim C2, as amended. For every title, every location and every category of the
  fixed set, when the id derived from the clock reading is not yet in the store,
  \<^verbatim>\<open>report_issue\<close> succeeds, returns that id, and appends exactly one record with
  status "open", votes 0 and \<^verbatim>\<open>created_at\<close> set to the current time.
\<close>

theorem report_issue_fresh:
  assumes "c \<in> CATEGORIES" and "''issue_'' @ ts \<notin> set (map id_issue s)"
  shows "report_issue t c l ts now s =
           (Inr (''issue_'' @ ts),
            s @ [\<lparr>id_issue = ''issue_'' @ ts, title = t, category = c, location = l,
                  status = ''open'', votes = 0, created_at = now\<rparr>])"
  using assms by (simp add: report_issue_def insert_row_def new_issue_def Let_def)

theorem report_issue_fresh_witness:
  "''transit'' \<in> CATEGORIES
   \<and> ''issue_'' @ ''1700000180.125'' \<notin> set (map id_issue sample_store)
   \<and> report_issue ''Late bus'' ''transit'' ''40.4,-74.5'' ''1700000180.125''
        ''2023-11-14T22:16:20.125100'' sample_store =
       (Inr ''issue_1700000180.125'',
        sample_store @
          [\<lparr>id_issue = ''issue_1700000180.125'', title = ''Late bus'', category = ''transit'',
            location = ''40.4,-74.5'', status = ''open'', votes = 0,
            created_at = ''2023-11-14T22:16:20.125100''\<rparr>])"
proof -
  have h1: "''transit'' \<in> CATEGORIES"
    by (simp add: CATEGORIES_def)
  have h2: "''issue_'' @ ''1700000180.125'' \<notin> set (map id_issue sample_store)"
    by (simp add: sample_defs)
  show ?thesis
    using h1 h2
      report_issue_fresh [OF h1 h2, of "''Late bus''" "''40.4,-74.5''" "''2023-11-14T22:16:20.125100''"]
    by simp
qed

text \<open>
  Claim C2 as it was stated fails: when the clock reading gives the id of a record
  that is already stored, a report in a valid category raises the integrity error of
  the primary key and stores nothing.
\<close>

theorem report_issue_same_reading_counterexample:
  "''safety'' \<in> CATEGORIES
   \<and> report_issue ''Dark alley'' ''safety'' ''40.2,-74.3'' ''1700000060.5''
        ''2023-11-14T22:14:20.500133'' sample_store
       = (Inl IntegrityError, sample_store)"
  by (simp add: CATEGORIES_def report_issue_def insert_row_def new_issue_def Let_def sample_defs)

text \<open>
  Claim C3. For every category outside the fixed set, \<^verbatim>\<open>report_issue\<close> raises the
  validation error that names the allowed set, and the store is left as it was.
\<close>

theorem report_issue_invalid:
  assumes "c \<notin> CATEGORIES"
  shows "report_issue t c l ts now s = (Inl (ValueError CATEGORIES), s)"
  using assms by (simp add: report_issue_def)

theorem report_issue_invalid_witness:
  "''roads'' \<notin> CATEGORIES
   \<and> report_issue ''Pothole'' ''roads'' ''40.1,-74.2'' ''1700000200.0''
        ''2023-11-14T22:16:40.000100'' sample_store
       = (Inl (ValueError CATEGORIES), sample_store)"
proof -
  have h: "''roads'' \<notin> CATEGORIES"
    by (simp add: CATEGORIES_def)
  show ?thesis
    using h report_issue_invalid [OF h] by simp
qed

text \<open>
  Claim C4. For every id that no record of the store has, \<^verbatim>\<open>vote_issue\<close> returns 0,
  raises nothing, creates no record and leaves every record as it was.
\<close>

theorem vote_issue_absent:
  assumes "i \<notin> set (map id_issue s)"
  shows "vote_issue i s = (0, s)"
  using assms by (simp add: vote_issue_def update_votes_absent select_votes_absent)

theorem vote_issue_absent_witness:
  "''issue_0'' \<notin> set (map id_issue sample_store)
   \<and> vote_issue ''issue_0'' sample_store = (0, sample_store)"
proof -
  have h: "''issue_0'' \<notin> set (map id_issue sample_store)"
    by (simp add: sample_defs)
  show ?thesis
    using h vote_issue_absent [OF h] by simp
qed

text \<open>
  Claim C5. For every store, the sequence that \<^verbatim>\<open>get_issues\<close> returns for
  \<^verbatim>\<open>sort_by="votes"\<close> is non-increasing in votes, and among entries with equal votes
  it is non-increasing in \<^verbatim>\<open>created_at\<close>. This holds with and without a category.
\<close>

theorem get_issues_votes_sorted:
  "sorted_wrt
     (\<lambda>a b. votes b \<le> votes a \<and> (votes a = votes b \<longrightarrow> created_at b \<le> created_at a))
     (get_issues c ''votes'' s)"
proof -
  have "sorted_wrt votes_desc (get_issues c ''votes'' s)"
    by (simp add: get_issues_def Let_def sorted_votes_desc)
  then show ?thesis
    by (rule sorted_wrt_mono_rel [rotated]) (auto simp: votes_desc_def)
qed

theorem get_issues_votes_sorted_witness:
  "get_issues None ''votes'' sample_store = [broken_bridge, dark_alley, pothole]
   \<and> votes pothole \<le> votes broken_bridge
   \<and> votes dark_alley = votes pothole
   \<and> created_at pothole \<le> created_at dark_alley"
proof -
  have eq: "votes dark_alley = votes pothole"
    by (simp add: sample_defs)
  show ?thesis
    using eq get_issues_votes_sorted [of None sample_store]
    by (simp add: sample_by_votes)
qed

text \<open>
  Claim C6, as amended. For every non-empty category argument \<open>C\<close>,
  \<^verbatim>\<open>get_issues(category=C)\<close> returns exactly the records whose category equals \<open>C\<close>
  character for character, each as often as it is stored, and the empty sequence when
  no record has that category.
\<close>

theorem get_issues_category:
  assumes "C \<noteq> []"
  shows "mset (get_issues (Some C) sort_by s) = mset (filter (\<lambda>r. category r = C) s)
         \<and> (get_issues (Some C) sort_by s = [] \<longleftrightarrow> C \<notin> set (map category s))"
proof -
  have m: "mset (get_issues (Some C) sort_by s) = mset (filter (\<lambda>r. category r = C) s)"
    using assms by (simp add: mset_get_issues where_category_def)
  have "get_issues (Some C) sort_by s = [] \<longleftrightarrow> filter (\<lambda>r. category r = C) s = []"
    using m by (metis mset_zero_iff)
  also have "\<dots> \<longleftrightarrow> C \<notin> set (map category s)"
    by (auto simp: filter_empty_conv)
  finally show ?thesis using m by simp
qed

theorem get_issues_category_witness:
  "''safety'' \<noteq> []
   \<and> mset (get_issues (Some ''safety'') ''votes'' sample_store) = {#dark_alley#}
   \<and> get_issues (Some ''Safety'') ''votes'' sample_store = []"
proof -
  have h: "''safety'' \<noteq> []" by simp
  have h': "''Safety'' \<noteq> []" by simp
  show ?thesis
    using h get_issues_category [OF h, of "''votes''" sample_store]
      get_issues_category [OF h', of "''votes''" sample_store]
    by (simp add: sample_defs)
qed

text \<open>
  Claim C6 as it was stated fails for the empty string: no record has the category
  \<^verbatim>\<open>""\<close>, and \<^verbatim>\<open>get_issues(category="")\<close> returns every record.
\<close>

theorem get_issues_empty_string_counterexample:
  "get_issues (Some []) ''votes'' sample_store = [broken_bridge, dark_alley, pothole]
   \<and> [] \<notin> set (map category sample_store)"
  by (simp add: get_issues_def where_category_def Let_def order_by_def votes_desc_def
      sample_defs list_le_def)





text \<open>
  Claim C9. In every store reached from the empty table by a sequence of reports,
  votes, listings, statistics and exports, the votes of every record are at least 0;
  and whatever operation comes next, every record is still there, the same but for
  its votes, which are not smaller than before.
\<close>

theorem votes_never_decrease:
  "(\<forall>r\<in>set (run xs). 0 \<le> votes r)
   \<and> (\<forall>k<length (run xs).
        k < length (step (run xs) x)
        \<and> step (run xs) x ! k = (run xs ! k)\<lparr>votes := votes (step (run xs) x ! k)\<rparr>
        \<and> votes (run xs ! k) \<le> votes (step (run xs) x ! k))"
proof -
  have a: "\<forall>r\<in>set (run xs). 0 \<le> votes r"
    unfolding run_def by (rule foldl_step_nonneg) simp
  have b: "k < length (step (run xs) x)
           \<and> step (run xs) x ! k = (run xs ! k)\<lparr>votes := votes (step (run xs) x ! k)\<rparr>
           \<and> votes (run xs ! k) \<le> votes (step (run xs) x ! k)"
    if k: "k < length (run xs)" for k
  proof -
    have "k < length (step (run xs) x)"
      using k step_length [of "run xs" x] by simp
    then show ?thesis using step_row [OF k, of x] by simp
  qed
  show ?thesis using a b by blast
qed

theorem votes_never_decrease_witness:
  "broken_bridge \<in> set (run sample_ops)
   \<and> 0 \<le> votes broken_bridge
   \<and> 2 < length (run sample_ops)
   \<and> run sample_ops ! 2 = broken_bridge
   \<and> step (run sample_ops) (Vote ''issue_1700000120.75'') ! 2 = broken_bridge\<lparr>votes := 3\<rparr>
   \<and> votes (run sample_ops ! 2) \<le> votes (step (run sample_ops) (Vote ''issue_1700000120.75'') ! 2)"
proof -
  have h1: "broken_bridge \<in> set (run sample_ops)"
    by (simp add: run_sample sample_store_def)
  have h2: "2 < length (run sample_ops)"
    by (simp add: run_sample sample_store_def)
  have v: "step (run sample_ops) (Vote ''issue_1700000120.75'') ! 2 = broken_bridge\<lparr>votes := 3\<rparr>"
    by (simp add: run_sample vote_issue_def update_votes_def Let_def sample_defs)
  have r: "run sample_ops ! 2 = broken_bridge"
    by (simp add: run_sample sample_store_def)
  show ?thesis
    using h1 h2 v r votes_never_decrease [of sample_ops "Vote ''issue_1700000120.75''"]
    by auto
qed

text \<open>
  Claim C10. For every store, \<^verbatim>\<open>get_issues\<close> called with the empty string as category
  (or with \<^verbatim>\<open>None\<close>, the other value that Python takes for false) applies no category
  filter: the result is the one of a call without category, and it holds every issue
  of the store.
\<close>

theorem get_issues_empty_category:
  "get_issues (Some []) sort_by s = get_issues None sort_by s
   \<and> mset (get_issues (Some []) sort_by s) = mset s
   \<and> mset (get_issues None sort_by s) = mset s"
  by (simp add: mset_get_issues where_category_def) (simp add: get_issues_def where_category_def)

end
